theory Spec2Isabelle
  imports Main
begin

section \<open>The server manager of serverManager.py\<close>

text \<open>
  The program is a hierarchy of processes: a manager reading commands, one server process
  per created server, and the replicants each server forks. The embedding follows one
  process at a time. What a process does to the operating system (fork, kill, wait, print)
  is recorded, in order, in a log carried by its state. The result of each fork and the
  moment a replicant dies by other hands are inputs of the model. What \<^verbatim>\<open>os.kill\<close>,
  \<^verbatim>\<open>os.wait\<close> and \<^verbatim>\<open>os.waitpid\<close> answer to a server follows from the
  children the server has: those that run, and those that have died and are not yet
  reaped. A process id is not given to a second process.
\<close>

subsection \<open>Values shared by the manager and the servers\<close>

datatype signal = SIGUSR1 | SIGUSR2 | SIGTERM | SIGKILL

text \<open>\<^verbatim>\<open>os.fork()\<close> returns a process id or raises \<^verbatim>\<open>OSError\<close>.\<close>

datatype fork_result = ForkReturns int | ForkOSError

text \<open>The exceptions of the source: \<open>OSError\<close> stands for its subclasses
  \<^verbatim>\<open>ProcessLookupError\<close> (of \<^verbatim>\<open>os.kill\<close>) and \<^verbatim>\<open>ChildProcessError\<close>
  (of \<^verbatim>\<open>os.wait\<close> and \<^verbatim>\<open>os.waitpid\<close>).\<close>

datatype error = ValueError | TypeError | IndexError | OSError

text \<open>One constructor for each \<^verbatim>\<open>print\<close> of the source; the arguments are the values
  the source formats into the line (its own process id, where it prints one, is left out).\<close>

datatype msg =
    ManagerStarted int
  | IncorrectArguments
  | InvalidServerName
  | DuplicateServerName
  | OutOfRange
  | MinimumAboveMaximum
  | StartingServer string int int
  | ErrorForking
  | ServerCreationFailed
  | ServerTerminated
  | ServerDoesNotExist
  | UnrecognizedCommand
  | ServerStarted string
  | ReplicantStarted string
  | ChildTerminated string
  | ChildStopped int
  | MaximumReached
  | MinimumReached

datatype action =
    Print msg
  | Fork fork_result
  | Kill int signal
  | KillSelf signal
  | Wait
  | WaitpidNohang
  | PsForest

subsection \<open>The server process (lines 48 to 146 in the child, handlers of lines 161 to 256)\<close>

text \<open>
  The place of the main flow of a server: at the test of line 78, of line 82, of line 88
  or of line 123; in \<^verbatim>\<open>os.wait()\<close> of line 132; in a replicant (line 109); out of
  its loop through \<^verbatim>\<open>except OSError\<close> of line 145; killed; or stopped by an exception
  nobody catches.
\<close>

datatype loc = Outer | Inner | Spawn | Shrink | Waiting | Replicant | Escaped | Dead | Raised error

datatype disposition = Handler | Ignore

text \<open>
  The globals and parameters of the source, the disposition of \<^verbatim>\<open>SIGCHLD\<close>, and what
  the kernel knows of the server's children: \<open>living\<close> are the children that run,
  \<open>zombies\<close> those that have died and are not reaped, oldest first, and
  \<open>sigchld_pending\<close> says that a \<^verbatim>\<open>SIGCHLD\<close> was sent whose handler has not run yet.
\<close>

record controller =
  server_name :: string
  server_processes :: "int list"
  number_of_active_processes :: int
  server_minimum_number :: int
  server_maximum_number :: int
  maximum_number_of_processes :: int
  sigchld :: disposition
  pc :: loc
  c_log :: "action list"
  living :: "int list"
  zombies :: "int list"
  sigchld_pending :: bool

text \<open>
  The server right after the fork of line 50, once it has printed line 56 and registered
  its handlers (lines 62 to 75): the globals are those the manager had at the fork,
  \<^verbatim>\<open>server_processes = []\<close> and \<^verbatim>\<open>number_of_active_processes\<close> as given. A new
  process has no children.
\<close>

definition init_controller :: "int \<Rightarrow> int \<Rightarrow> string \<Rightarrow> int \<Rightarrow> controller" where
  "init_controller mn mx name active =
     \<lparr>server_name = name, server_processes = [], number_of_active_processes = active,
      server_minimum_number = mn, server_maximum_number = mx,
      maximum_number_of_processes = mx, sigchld = Handler, pc = Outer,
      c_log = [Print (ServerStarted name)], living = [], zombies = [],
      sigchld_pending = False\<rparr>"

definition emit :: "action list \<Rightarrow> controller \<Rightarrow> controller" where
  "emit acts c = c\<lparr>c_log := c_log c @ acts\<rparr>"

text \<open>
  An \<^verbatim>\<open>OSError\<close> raised in the server, by its main flow or by a handler that
  interrupts it. The whole loop stands in the \<^verbatim>\<open>try\<close> of line 48: line 145 catches
  the exception and line 146 prints; \<^verbatim>\<open>create_server\<close> then returns \<^verbatim>\<open>None\<close> in
  the server process, which goes on at line 417 and reads commands. Once there, nothing
  catches a second one.
\<close>

definition oserror :: "controller \<Rightarrow> controller" where
  "oserror c =
     (case pc c of
        Escaped \<Rightarrow> c\<lparr>pc := Raised OSError\<rparr>
      | _ \<Rightarrow> (emit [Print ServerCreationFailed] c)\<lparr>pc := Escaped\<rparr>)"

text \<open>\<^verbatim>\<open>os.kill\<close> finds the process: it is a child that runs or a zombie.\<close>

definition is_child :: "int \<Rightarrow> controller \<Rightarrow> bool" where
  "is_child p c = (p \<in> set (living c) \<or> p \<in> set (zombies c))"

text \<open>
  The replicants of \<open>ps\<close> that run die. While \<^verbatim>\<open>SIGCHLD\<close> is ignored the kernel reaps
  them at once and sends nothing; otherwise they become zombies and \<^verbatim>\<open>SIGCHLD\<close> is
  sent.
\<close>

definition children_die :: "int list \<Rightarrow> controller \<Rightarrow> controller" where
  "children_die ps c =
     (let dead = filter (\<lambda>p. p \<in> set ps) (living c);
          rest = filter (\<lambda>p. p \<notin> set ps) (living c) in
      if dead = [] then c
      else case sigchld c of
        Ignore \<Rightarrow> c\<lparr>living := rest\<rparr>
      | Handler \<Rightarrow> c\<lparr>living := rest, zombies := zombies c @ dead, sigchld_pending := True\<rparr>)"

text \<open>Lines 194 to 211.\<close>

definition increment_active_processes :: "controller \<Rightarrow> controller" where
  "increment_active_processes c =
     (if number_of_active_processes c + 1 > server_maximum_number c
      then emit [Print MaximumReached] c
      else c\<lparr>number_of_active_processes := number_of_active_processes c + 1\<rparr>)"

text \<open>Lines 214 to 231.\<close>

definition decrement_active_processes :: "controller \<Rightarrow> controller" where
  "decrement_active_processes c =
     (if number_of_active_processes c - 1 < server_minimum_number c
      then emit [Print MinimumReached] c
      else c\<lparr>number_of_active_processes := number_of_active_processes c - 1\<rparr>)"

text \<open>
  Lines 244 to 253: \<^verbatim>\<open>os.kill\<close> on each replicant of the list in turn, then on the
  server itself. On a process id that is no process any more \<^verbatim>\<open>os.kill\<close> raises
  \<^verbatim>\<open>ProcessLookupError\<close>, and the rest of the handler is not run.
\<close>

fun kill_replicants :: "int list \<Rightarrow> controller \<Rightarrow> controller" where
  "kill_replicants [] c = (emit [KillSelf SIGKILL] c)\<lparr>pc := Dead\<rparr>"
| "kill_replicants (p # ps) c =
     (if is_child p c then kill_replicants ps (children_die [p] (emit [Kill p SIGKILL] c))
      else oserror (emit [Kill p SIGKILL] c))"

text \<open>Lines 234 to 253.\<close>

definition terminate_replicants :: "controller \<Rightarrow> controller" where
  "terminate_replicants c = kill_replicants (server_processes c) c"

text \<open>
  Lines 175 to 188. Python's \<^verbatim>\<open>for pid in server_processes\<close> walks the list by
  index and reads its length again at every turn, while \<^verbatim>\<open>remove\<close> deletes the
  first occurrence of the value: \<open>i\<close> is the index, \<open>zs\<close> the process ids whose
  \<^verbatim>\<open>ps\<close> line contains \<^verbatim>\<open>Z+\<close>.
\<close>

function zombie_scan :: "int list \<Rightarrow> nat \<Rightarrow> int list \<Rightarrow> action list \<Rightarrow> int list \<times> action list" where
  "zombie_scan zs i ps acts =
     (if i < length ps then
        (if ps ! i \<in> set zs
         then zombie_scan zs (Suc i) (remove1 (ps ! i) ps) (acts @ [Print (ChildStopped (ps ! i))])
         else zombie_scan zs (Suc i) ps acts)
      else (ps, acts))"
  by pat_completeness auto
termination
  by (relation "measure (\<lambda>(zs, i, ps, acts). length ps - i)") (auto simp: length_remove1)

declare zombie_scan.simps [simp del]

text \<open>
  Line 191, \<^verbatim>\<open>os.waitpid(-1, os.WNOHANG)\<close>: it reaps a zombie if there is one, returns
  at once if there are only running children, and raises \<^verbatim>\<open>ChildProcessError\<close> if
  the server has no child at all.
\<close>

definition waitpid_nohang :: "controller \<Rightarrow> controller" where
  "waitpid_nohang c =
     (case zombies c of
        z # zs \<Rightarrow> (emit [WaitpidNohang] c)\<lparr>zombies := zs\<rparr>
      | [] \<Rightarrow> if living c = [] then oserror (emit [WaitpidNohang] c)
              else emit [WaitpidNohang] c)"

text \<open>Lines 161 to 191; line 172 first.\<close>

definition abnormal_child_exit_handler :: "int list \<Rightarrow> controller \<Rightarrow> controller" where
  "abnormal_child_exit_handler zs c =
     (case zombie_scan zs 0 (server_processes c) [] of
        (ps, acts) \<Rightarrow>
          waitpid_nohang
            (emit acts (c\<lparr>sigchld := Ignore, sigchld_pending := False, server_processes := ps\<rparr>)))"

text \<open>
  The handler as the kernel and \<^verbatim>\<open>ps\<close> call it: \<^verbatim>\<open>ps\<close> reports the zombies of
  the server with \<^verbatim>\<open>Z+\<close> (the server runs in the foreground of its terminal, as the
  test of line 183 presumes).
\<close>

definition handle_sigchld :: "controller \<Rightarrow> controller" where
  "handle_sigchld c = abnormal_child_exit_handler (zombies c) c"

text \<open>
  Line 132, \<^verbatim>\<open>os.wait()\<close>. It reaps the oldest zombie if there is one and returns; the
  handler of a \<^verbatim>\<open>SIGCHLD\<close> that came meanwhile runs then, before line 133 prints.
  With no zombie and no child that runs it raises \<^verbatim>\<open>ChildProcessError\<close>. With no
  zombie and a child that runs it does not return: the server stays in the call.
\<close>

definition os_wait :: "controller \<Rightarrow> controller" where
  "os_wait c =
     (case zombies c of
        z # zs \<Rightarrow>
          let c1 = c\<lparr>zombies := zs\<rparr>;
              c2 = (if sigchld_pending c1 then handle_sigchld c1 else c1) in
          if pc c2 = Waiting
          then (emit [Print (ChildTerminated (server_name c2))] c2)\<lparr>pc := Shrink\<rparr>
          else c2
      | [] \<Rightarrow> if living c = [] then oserror c else c)"

text \<open>
  One turn of the main flow, from one test or call to the next. The fork result is read
  only when the turn forks (line 91); a replicant forked is a child that runs. At line 123
  with too many replicants, one turn pops (\<^verbatim>\<open>IndexError\<close> on an empty list), calls
  \<^verbatim>\<open>os.kill\<close> and, if that returns, \<^verbatim>\<open>os.wait\<close>: the replicant dies while the
  server is in that call. When the loop of line 123 ends, the flow goes round
  \<^verbatim>\<open>while True\<close>, registers the handlers again and is back at line 78. A replicant is
  followed no further, and neither is the command loop of a server that left its loop.
\<close>

definition server_loop_step :: "fork_result \<Rightarrow> controller \<Rightarrow> controller" where
  "server_loop_step f c =
     (let n = int (length (server_processes c)) in
      case pc c of
        Outer \<Rightarrow> if n \<le> number_of_active_processes c then c\<lparr>pc := Inner\<rparr> else c\<lparr>pc := Shrink\<rparr>
      | Inner \<Rightarrow> if n = number_of_active_processes c then c else c\<lparr>pc := Spawn\<rparr>
      | Spawn \<Rightarrow>
          if n < maximum_number_of_processes c then
            (case f of
               ForkOSError \<Rightarrow> (emit [Fork f] c)\<lparr>pc := Outer\<rparr>
             | ForkReturns pid2 \<Rightarrow>
                 let c' = (emit [Fork f] c)\<lparr>server_processes := server_processes c @ [pid2]\<rparr> in
                 if pid2 = 0
                 then (emit [Print (ReplicantStarted (server_name c))] c')
                        \<lparr>pc := Replicant, living := [], zombies := [], sigchld_pending := False\<rparr>
                 else if pid2 > 0 then c'\<lparr>pc := Outer, living := living c @ [pid2]\<rparr>
                 else c'\<lparr>pc := Outer\<rparr>)
          else c\<lparr>pc := Shrink\<rparr>
      | Shrink \<Rightarrow>
          if n > number_of_active_processes c then
            (if server_processes c = [] then c\<lparr>pc := Raised IndexError\<rparr>
             else
               let p = last (server_processes c);
                   c1 = (emit [Kill p SIGKILL] c)\<lparr>server_processes := butlast (server_processes c)\<rparr> in
               if is_child p c then (emit [Wait] (children_die [p] c1))\<lparr>pc := Waiting\<rparr>
               else oserror c1)
          else c\<lparr>sigchld := Handler, pc := Outer\<rparr>
      | Waiting \<Rightarrow> os_wait c
      | Replicant \<Rightarrow> c
      | Escaped \<Rightarrow> c
      | Dead \<Rightarrow> c
      | Raised e \<Rightarrow> c)"

text \<open>
  What happens to a server: a turn of its main flow, a signal, or the death of replicants
  by other hands (\<open>Chld ps\<close>: those of \<open>ps\<close> that run die). The model follows a process
  until it is killed, is stopped by an exception, or is a replicant. The handler of
  \<^verbatim>\<open>SIGCHLD\<close> runs only while the signal is not ignored (line 172); it runs at once,
  except in \<^verbatim>\<open>os.wait()\<close>, which collects a dead child first.
\<close>

datatype event = Tick fork_result | Usr1 | Usr2 | Term | Chld "int list"

definition followed :: "controller \<Rightarrow> bool" where
  "followed c = (case pc c of Dead \<Rightarrow> False | Raised e \<Rightarrow> False | Replicant \<Rightarrow> False | _ \<Rightarrow> True)"

definition deliver :: "event \<Rightarrow> controller \<Rightarrow> controller" where
  "deliver e c =
     (if \<not> followed c then c
      else case e of
        Tick f \<Rightarrow> server_loop_step f c
      | Usr1 \<Rightarrow> increment_active_processes c
      | Usr2 \<Rightarrow> decrement_active_processes c
      | Term \<Rightarrow> terminate_replicants c
      | Chld ps \<Rightarrow>
          (let c1 = children_die ps c in
           if sigchld_pending c1 \<and> pc c1 \<noteq> Waiting then handle_sigchld c1 else c1))"

definition run :: "event list \<Rightarrow> controller \<Rightarrow> controller" where
  "run es c = fold deliver es c"

subsection \<open>The manager process (lines 25 to 146 in the parent, lines 259 to 502)\<close>

record manager =
  manager_pid :: int
  server_pids :: "string \<rightharpoonup> int option"
  m_log :: "action list"

text \<open>Lines 362 to 370. A directory value \<open>None\<close> is Python's \<^verbatim>\<open>None\<close>.\<close>

definition init_manager :: "int \<Rightarrow> manager" where
  "init_manager p =
     \<lparr>manager_pid = p, server_pids = [''Manager'' \<mapsto> Some p], m_log = [Print (ManagerStarted p)]\<rparr>"

definition say :: "action list \<Rightarrow> manager \<Rightarrow> manager" where
  "say acts m = m\<lparr>m_log := m_log m @ acts\<rparr>"

text \<open>
  What \<^verbatim>\<open>create_server\<close> is for the process that called it: in the parent it returns
  a process id or \<^verbatim>\<open>None\<close>; in the child it never returns, the process is the server.
\<close>

datatype created = Returned "int option" "action list" | RunsServer controller

text \<open>Lines 25 to 146; \<open>active\<close> is the global \<^verbatim>\<open>number_of_active_processes\<close>
  at the call.\<close>

definition create_server :: "fork_result \<Rightarrow> int \<Rightarrow> int \<Rightarrow> string \<Rightarrow> int \<Rightarrow> created" where
  "create_server f mn mx name active =
     (case f of
        ForkOSError \<Rightarrow>
          Returned None [Print (StartingServer name mn mx), Fork f, Print ServerCreationFailed]
      | ForkReturns pid \<Rightarrow>
          if pid = 0 then RunsServer (init_controller mn mx name active)
          else if pid > 0 then Returned (Some pid) [Print (StartingServer name mn mx), Fork f]
          else Returned None [Print (StartingServer name mn mx), Fork f, Print ErrorForking])"

text \<open>
  What a command does to the process that read it: the manager goes on with a new state,
  the process has become a server, an exception nobody catches stops it, or a signal it
  sent to itself ends it.
\<close>

datatype outcome = Continue manager | InServer controller | Uncaught error | Terminated

text \<open>Lines 394 to 423, once the arguments are parsed.\<close>

definition createServer_request :: "fork_result \<Rightarrow> int \<Rightarrow> int \<Rightarrow> string \<Rightarrow> manager \<Rightarrow> outcome" where
  "createServer_request f mn mx name m =
     (if name = [] then Continue (say [Print InvalidServerName] m)
      else if server_pids m name \<noteq> None then Continue (say [Print DuplicateServerName] m)
      else
        let m1 = (if mn < 0 \<or> mx > 10 then say [Print OutOfRange] m else m) in
        if mx \<ge> mn then
          (case create_server f mn mx name mn of
             Returned r acts \<Rightarrow> Continue ((say acts m1)\<lparr>server_pids := (server_pids m1)(name \<mapsto> r)\<rparr>)
           | RunsServer c \<Rightarrow> InServer c)
        else Continue (say [Print MinimumAboveMaximum] m1))"

text \<open>\<^verbatim>\<open>command.split(" ")\<close>: the pieces between single spaces, empty pieces kept.\<close>

fun split_space :: "string \<Rightarrow> string list" where
  "split_space [] = [[]]"
| "split_space (c # cs) =
     (if c = CHR '' '' then [] # split_space cs
      else (case split_space cs of [] \<Rightarrow> [[c]] | w # ws \<Rightarrow> (c # w) # ws))"

text \<open>\<^verbatim>\<open>xs in ys\<close> on strings: \<open>xs\<close> occurs somewhere in \<open>ys\<close>.\<close>

fun contains :: "string \<Rightarrow> string \<Rightarrow> bool" where
  "contains xs [] = (xs = [])"
| "contains xs (y # ys) = (take (length xs) (y # ys) = xs \<or> contains xs ys)"

text \<open>
  Lines 380 to 392, then the request. Python's \<^verbatim>\<open>int\<close> is a parameter: \<open>None\<close>
  where it raises \<^verbatim>\<open>ValueError\<close>.
\<close>

definition createServer_command ::
  "(string \<Rightarrow> int option) \<Rightarrow> fork_result \<Rightarrow> string \<Rightarrow> manager \<Rightarrow> outcome" where
  "createServer_command py_int f command m =
     (let flags = split_space command in
      if length flags \<noteq> 4 then Continue (say [Print IncorrectArguments] m)
      else case py_int (flags ! 1) of
        None \<Rightarrow> Uncaught ValueError
      | Some mn \<Rightarrow>
          (case py_int (flags ! 2) of
             None \<Rightarrow> Uncaught ValueError
           | Some mx \<Rightarrow> createServer_request f mn mx (flags ! 3) m))"

text \<open>
  Lines 259 to 301 as the manager calls them: \<^verbatim>\<open>os.kill(pid, sig)\<close> on the value
  of the directory. \<^verbatim>\<open>None\<close> is no process id (\<^verbatim>\<open>TypeError\<close>); the manager has
  no handler for these signals, so one sent to its own process id ends it.
\<close>

definition send_signal :: "signal \<Rightarrow> int option \<Rightarrow> manager \<Rightarrow> outcome" where
  "send_signal s v m =
     (case v of
        None \<Rightarrow> Uncaught TypeError
      | Some p \<Rightarrow> if p = manager_pid m then Terminated else Continue (say [Kill p s] m))"

text \<open>Lines 426 to 448.\<close>

definition abortServer_command :: "string \<Rightarrow> manager \<Rightarrow> outcome" where
  "abortServer_command command m =
     (let flags = split_space command in
      if length flags \<noteq> 2 then Continue (say [Print IncorrectArguments] m)
      else case server_pids m (flags ! 1) of
        Some v \<Rightarrow>
          (case send_signal SIGTERM v m of
             Continue m1 \<Rightarrow>
               Continue ((say [Print ServerTerminated] m1)
                           \<lparr>server_pids := (server_pids m1)(flags ! 1 := None)\<rparr>)
           | r \<Rightarrow> r)
      | None \<Rightarrow> Continue (say [Print ServerDoesNotExist] m))"

text \<open>Lines 451 to 471 with \<open>SIGUSR1\<close>, lines 474 to 494 with \<open>SIGUSR2\<close>.\<close>

definition process_command :: "signal \<Rightarrow> string \<Rightarrow> manager \<Rightarrow> outcome" where
  "process_command s command m =
     (let flags = split_space command in
      if length flags \<noteq> 2 then Continue (say [Print IncorrectArguments] m)
      else case server_pids m (flags ! 1) of
        Some v \<Rightarrow> send_signal s v m
      | None \<Rightarrow> Continue (say [Print ServerDoesNotExist] m))"

text \<open>
  One turn of the command loop, lines 374 to 502. Of \<^verbatim>\<open>display_status\<close> only the call
  of \<^verbatim>\<open>ps\<close> is recorded: the lines it prints are made from the answer of \<^verbatim>\<open>ps\<close>.
\<close>

definition manager_step ::
  "(string \<Rightarrow> int option) \<Rightarrow> fork_result \<Rightarrow> string \<Rightarrow> manager \<Rightarrow> outcome" where
  "manager_step py_int f command m =
     (if contains ''createServer'' command then createServer_command py_int f command m
      else if contains ''abortServer'' command then abortServer_command command m
      else if contains ''createProcess'' command then process_command SIGUSR1 command m
      else if contains ''abortProcess'' command then process_command SIGUSR2 command m
      else if contains ''displayStatus'' command then Continue (say [PsForest] m)
      else Continue (say [Print UnrecognizedCommand] m))"

text \<open>The states the manager started with process id \<open>p\<close> can be in when it reads a command.\<close>

inductive reachable :: "(string \<Rightarrow> int option) \<Rightarrow> int \<Rightarrow> manager \<Rightarrow> bool"
  for py_int :: "string \<Rightarrow> int option" and p :: int where
  start: "reachable py_int p (init_manager p)"
| step: "reachable py_int p m \<Longrightarrow> manager_step py_int f command m = Continue m' \<Longrightarrow>
         reachable py_int p m'"

text \<open>
  Python's \<^verbatim>\<open>int\<close> on the two numerals of the example command
  \<^verbatim>\<open>createServer 1 3 A\<close>; the examples read it nowhere else.
\<close>

definition example_int :: "string \<Rightarrow> int option" where
  "example_int s = (if s = ''1'' then Some 1 else if s = ''3'' then Some 3 else None)"

text \<open>
  The example server: \<^verbatim>\<open>createServer 1 3 A\<close> has forked replicant 11 and waits at
  line 85; then \<^verbatim>\<open>createProcess A\<close> arrives, replicant 12 is forked, and the server
  waits at line 85 again. The fork result of a turn that does not fork is not read.
\<close>

definition settled_at_two :: controller where
  "settled_at_two =
     run [Tick (ForkReturns 11), Tick (ForkReturns 11), Tick (ForkReturns 11),
          Tick (ForkReturns 12), Usr1, Tick (ForkReturns 12), Tick (ForkReturns 12),
          Tick (ForkReturns 13)] (init_controller 1 3 ''A'' 1)"

section \<open>Properties\<close>

subsection \<open>Running a server\<close>

lemma run_snoc: "run (es @ [e]) c = deliver e (run es c)"
  by (simp add: run_def)

lemma stopped_stays: "\<not> followed c \<Longrightarrow> run es c = c"
  by (induction es arbitrary: c) (simp_all add: run_def deliver_def)

lemma settled_ticks:
  assumes "pc c = Inner" "int (length (server_processes c)) = number_of_active_processes c"
  shows "run (map Tick fs) c = c"
  using assms
  by (induction fs) (simp_all add: run_def deliver_def followed_def server_loop_step_def)

lemma settled_at_two_state:
  "pc settled_at_two = Inner" "sigchld settled_at_two = Handler"
  "server_processes settled_at_two = [11, 12]" "number_of_active_processes settled_at_two = 2"
  "maximum_number_of_processes settled_at_two = 3" "server_name settled_at_two = ''A''"
  "c_log settled_at_two
     = [Print (ServerStarted ''A''), Fork (ForkReturns 11), Fork (ForkReturns 12)]"
  "living settled_at_two = [11, 12]" "zombies settled_at_two = []"
  "sigchld_pending settled_at_two = False"
  unfolding settled_at_two_def by code_simp+

lemma filter_one:
  "distinct xs \<Longrightarrow> p \<in> set xs \<Longrightarrow> filter (\<lambda>x. x = p) xs = [p]"
  by (induction xs) (auto simp: filter_empty_conv)

lemma filter_others:
  "distinct xs \<Longrightarrow> filter (\<lambda>x. x \<noteq> p) xs = remove1 p xs"
  by (induction xs) (auto simp: filter_id_conv)

lemma wait_stays_blocked:
  assumes "pc c = Waiting" "zombies c = []" "living c \<noteq> []"
  shows "run (map Tick fs) c = c"
  using assms
  by (induction fs)
     (simp_all add: run_def deliver_def followed_def server_loop_step_def os_wait_def)

subsection \<open>The target stays within its bounds\<close>

lemma scale_step:
  assumes "followed c" "e = Usr1 \<or> e = Usr2"
    "server_minimum_number c \<le> number_of_active_processes c"
    "number_of_active_processes c \<le> server_maximum_number c"
  shows "followed (deliver e c) \<and>
         server_minimum_number (deliver e c) = server_minimum_number c \<and>
         server_maximum_number (deliver e c) = server_maximum_number c \<and>
         server_minimum_number c \<le> number_of_active_processes (deliver e c) \<and>
         number_of_active_processes (deliver e c) \<le> server_maximum_number c"
  using assms
  by (auto simp: deliver_def increment_active_processes_def decrement_active_processes_def
      emit_def followed_def)

lemma scale_run:
  assumes "mn \<le> mx" "set ns \<subseteq> {Usr1, Usr2}"
  shows "followed (run ns (init_controller mn mx name mn)) \<and>
         server_minimum_number (run ns (init_controller mn mx name mn)) = mn \<and>
         server_maximum_number (run ns (init_controller mn mx name mn)) = mx \<and>
         mn \<le> number_of_active_processes (run ns (init_controller mn mx name mn)) \<and>
         number_of_active_processes (run ns (init_controller mn mx name mn)) \<le> mx"
  using assms(2)
proof (induction ns rule: rev_induct)
  case Nil
  show ?case using assms(1) by (simp add: run_def init_controller_def followed_def)
next
  case (snoc e ns)
  let ?c = "run ns (init_controller mn mx name mn)"
  have e: "e = Usr1 \<or> e = Usr2" using snoc.prems by auto
  have ih: "followed ?c \<and> server_minimum_number ?c = mn \<and> server_maximum_number ?c = mx \<and>
         mn \<le> number_of_active_processes ?c \<and> number_of_active_processes ?c \<le> mx"
    using snoc by auto
  show ?case unfolding run_snoc using scale_step [of ?c e] ih e by auto
qed

lemma created_server:
  assumes "createServer_request f mn mx name m = InServer c0"
  shows "mn \<le> mx \<and> c0 = init_controller mn mx name mn"
  using assms
  by (auto simp: createServer_request_def create_server_def Let_def
      split: if_splits fork_result.splits)

text \<open>
  C3. A server is created by the createServer branch only, with \<open>mn \<le> mx\<close> (line 410)
  and the target \<^verbatim>\<open>number_of_active_processes = mn\<close> (line 414). After any finite
  sequence of \<open>SIGUSR1\<close> (scale up) and \<open>SIGUSR2\<close> (scale down) its target \<open>t\<close> is
  within \<open>mn \<le> t \<le> mx\<close>. The next scale up only prints a notice when \<open>t + 1 > mx\<close>
  and adds exactly 1 to the target otherwise; the next scale down only prints a notice when
  \<open>t - 1 < mn\<close> and subtracts exactly 1 otherwise. Every prefix of a sequence is such a
  sequence, so the bounds hold after each notification.
\<close>

theorem scale_notifications_keep_target_in_bounds:
  assumes "createServer_request f mn mx name m = InServer c0"
    and "set ns \<subseteq> {Usr1, Usr2}"
  shows "let c = run ns c0; t = number_of_active_processes c in
           number_of_active_processes c0 = mn \<and> mn \<le> t \<and> t \<le> mx \<and>
           deliver Usr1 c =
             (if t + 1 > mx then c\<lparr>c_log := c_log c @ [Print MaximumReached]\<rparr>
              else c\<lparr>number_of_active_processes := t + 1\<rparr>) \<and>
           deliver Usr2 c =
             (if t - 1 < mn then c\<lparr>c_log := c_log c @ [Print MinimumReached]\<rparr>
              else c\<lparr>number_of_active_processes := t - 1\<rparr>)"
proof -
  have c0: "mn \<le> mx" "c0 = init_controller mn mx name mn"
    using created_server [OF assms(1)] by simp_all
  show ?thesis
    using scale_run [OF c0(1) assms(2), of name] unfolding c0(2)
    by (auto simp: Let_def deliver_def increment_active_processes_def
        decrement_active_processes_def emit_def init_controller_def)
qed

theorem scale_notifications_witness:
  "createServer_request (ForkReturns 0) 1 3 ''A'' (init_manager 100)
     = InServer (init_controller 1 3 ''A'' 1) \<and>
   set [Usr1, Usr1, Usr1, Usr2] \<subseteq> {Usr1, Usr2} \<and>
   number_of_active_processes (run [Usr1, Usr1, Usr1, Usr2] (init_controller 1 3 ''A'' 1)) = 2 \<and>
   deliver Usr2 (run [Usr1, Usr1, Usr1, Usr2] (init_controller 1 3 ''A'' 1))
     = (run [Usr1, Usr1, Usr1, Usr2] (init_controller 1 3 ''A'' 1))
         \<lparr>number_of_active_processes := 1\<rparr>"
proof -
  have h: "createServer_request (ForkReturns 0) 1 3 ''A'' (init_manager 100)
             = InServer (init_controller 1 3 ''A'' 1)"
    by (simp add: createServer_request_def create_server_def init_manager_def)
  have s: "set [Usr1, Usr1, Usr1, Usr2] \<subseteq> {Usr1, Usr2}" by simp
  have t: "number_of_active_processes
             (run [Usr1, Usr1, Usr1, Usr2] (init_controller 1 3 ''A'' 1)) = 2"
    by code_simp
  show ?thesis
    using h s t scale_notifications_keep_target_in_bounds [OF h s]
    by (simp add: Let_def)
qed

subsection \<open>Growing on a scale down\<close>

text \<open>
  C2. The claim: a replicant is forked only while there are fewer replicants than the
  target. The code: the server of \<open>settled_at_two\<close> waits at line 85 with two
  replicants, target 2 and maximum 3. \<^verbatim>\<open>abortProcess A\<close> lowers the target to 1; the
  loop of line 82 ends, line 88 compares the length with the maximum only, and line 91 forks
  replicant 13 with two replicants against a target of 1. Then the loop of line 123 kills
  13 and, after it, 12.
\<close>

theorem scale_down_forks_before_killing:
  "let c = settled_at_two;
       d = run [Usr2, Tick (ForkReturns 13), Tick (ForkReturns 13)] c in
     pc c = Inner \<and> server_processes c = [11, 12] \<and> number_of_active_processes c = 2 \<and>
     number_of_active_processes d = 1 \<and> server_processes d = [11, 12, 13] \<and>
     c_log d = c_log c @ [Fork (ForkReturns 13)] \<and>
     c_log (run [Tick (ForkReturns 14), Tick (ForkReturns 14), Tick (ForkReturns 14),
                 Tick (ForkReturns 14), Tick (ForkReturns 14)] d)
       = c_log d @ [Kill 13 SIGKILL, Wait, WaitpidNohang, Print (ChildTerminated ''A''),
                    Kill 12 SIGKILL, Wait]"
  by code_simp

subsection \<open>Shrinking\<close>

text \<open>
  With the handler of line 62 registered and other replicants running, the first turn of the
  loop of line 123 does what is wanted of it: it pops the last replicant, kills it and
  collects it in \<^verbatim>\<open>os.wait()\<close>. The \<^verbatim>\<open>SIGCHLD\<close> of that death runs the handler,
  and \<^verbatim>\<open>SIGCHLD\<close> is ignored from then on.
\<close>

lemma zombie_scan_none:
  assumes "\<forall>w \<in> set ps. w \<notin> set zs"
  shows "zombie_scan zs j ps a = (ps, a)"
proof (induction "length ps - j" arbitrary: j)
  case 0
  then show ?case by (simp add: zombie_scan.simps [of zs j ps a])
next
  case (Suc n)
  then have lt: "j < length ps" by simp
  then have "ps ! j \<notin> set zs" using assms by simp
  moreover have "zombie_scan zs (Suc j) ps a = (ps, a)"
    using Suc by simp
  ultimately show ?case
    using lt by (simp add: zombie_scan.simps [of zs j ps a])
qed

lemma armed_shrink_turn:
  assumes "pc c = Shrink" and "sigchld c = Handler" and "zombies c = []"
    and "\<not> sigchld_pending c"
    and "int (length (server_processes c)) > number_of_active_processes c"
    and "server_processes c \<noteq> []"
    and "last (server_processes c) \<in> set (living c)" and "distinct (living c)"
    and "filter (\<lambda>p. p \<noteq> last (server_processes c)) (living c) \<noteq> []"
  shows "run [Tick f, Tick g] c =
           c\<lparr>server_processes := butlast (server_processes c),
             c_log := c_log c @ [Kill (last (server_processes c)) SIGKILL, Wait, WaitpidNohang,
                                  Print (ChildTerminated (server_name c))],
             living := filter (\<lambda>p. p \<noteq> last (server_processes c)) (living c),
             sigchld := Ignore\<rparr>"
proof -
  let ?p = "last (server_processes c)"
  have f: "filter (\<lambda>q. q = ?p) (living c) = [?p]"
    using assms(7,8) by (simp add: filter_one)
  have scan: "zombie_scan [] 0 (butlast (server_processes c)) [] = (butlast (server_processes c), [])"
    by (rule zombie_scan_none) simp
  show ?thesis
    using assms f scan
    by (simp add: run_def deliver_def followed_def server_loop_step_def os_wait_def is_child_def
        children_die_def handle_sigchld_def abnormal_child_exit_handler_def waitpid_nohang_def
        emit_def Let_def)
qed

text \<open>
  With \<^verbatim>\<open>SIGCHLD\<close> ignored, a turn of the loop of line 123 pops and kills the last
  replicant, the kernel reaps it, and \<^verbatim>\<open>os.wait()\<close> has nothing to collect: while
  another replicant runs, the server stays in the call of line 132.
\<close>

lemma ignored_shrink_turn_blocks:
  assumes "pc c = Shrink" and "sigchld c = Ignore" and "zombies c = []"
    and "int (length (server_processes c)) > number_of_active_processes c"
    and "server_processes c \<noteq> []"
    and "last (server_processes c) \<in> set (living c)"
    and "filter (\<lambda>p. p \<noteq> last (server_processes c)) (living c) \<noteq> []"
  shows "run (Tick f # map Tick fs) c =
           c\<lparr>server_processes := butlast (server_processes c),
             c_log := c_log c @ [Kill (last (server_processes c)) SIGKILL, Wait],
             living := filter (\<lambda>p. p \<noteq> last (server_processes c)) (living c),
             pc := Waiting\<rparr>"
proof -
  let ?p = "last (server_processes c)"
  let ?d = "c\<lparr>server_processes := butlast (server_processes c),
             c_log := c_log c @ [Kill ?p SIGKILL, Wait],
             living := filter (\<lambda>p. p \<noteq> ?p) (living c),
             pc := Waiting\<rparr>"
  have f: "filter (\<lambda>q. q = ?p) (living c) \<noteq> []"
    using assms(6) by (auto simp: filter_empty_conv)
  have one: "deliver (Tick f) c = ?d"
    using assms f
    by (simp add: deliver_def followed_def server_loop_step_def is_child_def
        children_die_def emit_def Let_def)
  have "run (map Tick fs) ?d = ?d"
    by (rule wait_stays_blocked) (use assms in simp_all)
  then show ?thesis by (simp add: run_def one [unfolded deliver_def] deliver_def)
qed

text \<open>
  C6. The claim: every turn of the loop of line 123 pops the last replicant, kills it and
  waits for its exit status before the next turn. The code: the server of
  \<open>settled_at_two\<close>, after \<^verbatim>\<open>abortProcess A\<close>, is at line 123 with replicants
  11, 12, 13 and target 1. The first turn pops and kills 13 and collects it; the
  \<^verbatim>\<open>SIGCHLD\<close> of that death runs the handler of line 62, and line 172 sets
  \<^verbatim>\<open>SIG_IGN\<close>. The second turn pops and kills 12; the kernel reaps it, and
  \<^verbatim>\<open>os.wait()\<close> of line 132 does not return while replicant 11 runs: the server stays
  there, whatever the number of further turns. When replicant 11 dies too,
  \<^verbatim>\<open>os.wait()\<close> raises and the server leaves its loop through line 145.
\<close>

theorem second_wait_never_returns:
  "let c = run [Usr2, Tick (ForkReturns 13), Tick (ForkReturns 13), Tick (ForkReturns 14)]
             settled_at_two;
       d = run [Tick ForkOSError, Tick ForkOSError] c;
       e = run [Tick ForkOSError, Tick ForkOSError] d in
     pc c = Shrink \<and> server_processes c = [11, 12, 13] \<and> number_of_active_processes c = 1 \<and>
     sigchld c = Handler \<and> living c = [11, 12, 13] \<and>
     pc d = Shrink \<and> server_processes d = [11, 12] \<and> sigchld d = Ignore \<and>
     c_log d = c_log c @ [Kill 13 SIGKILL, Wait, WaitpidNohang, Print (ChildTerminated ''A'')] \<and>
     pc e = Waiting \<and> server_processes e = [11] \<and> living e = [11] \<and> zombies e = [] \<and>
     c_log e = c_log d @ [Kill 12 SIGKILL, Wait] \<and>
     run [Tick ForkOSError, Tick ForkOSError, Tick ForkOSError, Tick ForkOSError] e = e \<and>
     pc (run [Chld [11], Tick ForkOSError] e) = Escaped \<and>
     c_log (run [Chld [11], Tick ForkOSError] e) = c_log e @ [Print ServerCreationFailed]"
  by code_simp

subsection \<open>Terminating a server\<close>

lemma children_die_log [simp]:
  "c_log (children_die ps c) = c_log c" "pc (children_die ps c) = pc c"
  "server_processes (children_die ps c) = server_processes c"
  by (simp_all add: children_die_def Let_def split: disposition.splits)

lemma children_die_one:
  "is_child q c \<Longrightarrow> q \<noteq> p \<Longrightarrow> is_child q (children_die [p] (emit acts c))"
  by (auto simp: is_child_def children_die_def emit_def Let_def split: disposition.splits)

lemma kill_replicants_all:
  assumes "distinct ps" "\<forall>p \<in> set ps. is_child p c"
  shows "c_log (kill_replicants ps c)
           = c_log c @ map (\<lambda>p. Kill p SIGKILL) ps @ [KillSelf SIGKILL] \<and>
         pc (kill_replicants ps c) = Dead \<and>
         server_processes (kill_replicants ps c) = server_processes c"
  using assms
proof (induction ps arbitrary: c)
  case Nil
  show ?case by (simp add: emit_def)
next
  case (Cons p ps)
  let ?c = "children_die [p] (emit [Kill p SIGKILL] c)"
  have p: "is_child p c" using Cons.prems by simp
  have rest: "\<forall>q \<in> set ps. is_child q ?c"
    using Cons.prems children_die_one [of _ c p "[Kill p SIGKILL]"] by auto
  have d: "distinct ps" using Cons.prems by simp
  show ?case
    using Cons.IH [OF d rest] p by (simp add: emit_def)
qed

text \<open>
  While every process id of \<^verbatim>\<open>server_processes\<close> is a child of the server, running
  or zombie, and none stands twice in the list, \<open>SIGTERM\<close> does what is wanted of it:
  \<open>SIGKILL\<close> to every replicant in the order of the list, then to the server itself,
  and no event changes the server after that.
\<close>

lemma terminate_without_stale_pid:
  assumes "followed c" and "distinct (server_processes c)"
    and "\<forall>p \<in> set (server_processes c). is_child p c"
  shows "c_log (deliver Term c)
           = c_log c @ map (\<lambda>p. Kill p SIGKILL) (server_processes c) @ [KillSelf SIGKILL] \<and>
         pc (deliver Term c) = Dead \<and>
         (\<forall>es. run es (deliver Term c) = deliver Term c)"
proof -
  have k: "c_log (deliver Term c)
           = c_log c @ map (\<lambda>p. Kill p SIGKILL) (server_processes c) @ [KillSelf SIGKILL] \<and>
         pc (deliver Term c) = Dead"
    using assms(1) kill_replicants_all [OF assms(2,3)]
    by (simp add: deliver_def terminate_replicants_def)
  then have "\<not> followed (deliver Term c)" by (simp add: followed_def)
  then show ?thesis using k stopped_stays by blast
qed

text \<open>
  C7. The claim: on \<open>SIGTERM\<close> the server kills every replicant of its list, in order,
  and then itself. The code: in \<open>settled_at_two\<close> replicant 11 dies and is replaced by
  13, which leaves \<^verbatim>\<open>SIGCHLD\<close> ignored; then replicant 12 dies, the kernel reaps it and
  the server does not notice: its list is still 12, 13. On \<open>SIGTERM\<close> the handler calls
  \<^verbatim>\<open>os.kill\<close> on 12 (line 247), which raises \<^verbatim>\<open>ProcessLookupError\<close>; line 145
  catches it. Replicant 13 is not killed and still runs, the server is not killed, and it
  has left its loop.
\<close>

theorem terminate_stops_at_stale_pid:
  "let c = run [Chld [11], Tick (ForkReturns 13), Tick (ForkReturns 13), Tick (ForkReturns 13),
                Chld [12]] settled_at_two;
       d = deliver Term c in
     followed c \<and> pc c = Inner \<and> server_processes c = [12, 13] \<and> living c = [13] \<and>
     zombies c = [] \<and>
     c_log d = c_log c @ [Kill 12 SIGKILL, Print ServerCreationFailed] \<and>
     pc d = Escaped \<and> living d = [13] \<and> server_processes d = [12, 13]"
  by code_simp

subsection \<open>A replicant that dies\<close>

lemma zombie_scan_one:
  assumes "distinct ps" "set zs \<inter> set ps = {p}"
  shows "zombie_scan zs i ps acts =
           (if p \<in> set (drop i ps) then (remove1 p ps, acts @ [Print (ChildStopped p)])
            else (ps, acts))"
  using assms
proof (induction zs i ps acts rule: zombie_scan.induct)
  case (1 zs i ps acts)
  show ?case
  proof (cases "i < length ps")
    case False
    then show ?thesis by (simp add: zombie_scan.simps [of zs i ps acts])
  next
    case True
    have d: "drop i ps = ps ! i # drop (Suc i) ps" using True by (simp add: Cons_nth_drop_Suc)
    have mem: "ps ! i \<in> set ps" using True by simp
    show ?thesis
    proof (cases "ps ! i \<in> set zs")
      case z: True
      have eq: "ps ! i = p" using z mem "1.prems"(2) by auto
      have none: "\<forall>w \<in> set (remove1 p ps). w \<notin> set zs"
        using "1.prems" by auto
      have "zombie_scan zs i ps acts
              = zombie_scan zs (Suc i) (remove1 p ps) (acts @ [Print (ChildStopped p)])"
        using True z eq by (simp add: zombie_scan.simps [of zs i ps acts])
      also have "\<dots> = (remove1 p ps, acts @ [Print (ChildStopped p)])"
        by (rule zombie_scan_none [OF none])
      finally show ?thesis using d eq by simp
    next
      case nz: False
      have ne: "ps ! i \<noteq> p" using nz "1.prems"(2) by auto
      have "zombie_scan zs i ps acts = zombie_scan zs (Suc i) ps acts"
        using True nz by (simp add: zombie_scan.simps [of zs i ps acts])
      also have "\<dots> = (if p \<in> set (drop (Suc i) ps)
                         then (remove1 p ps, acts @ [Print (ChildStopped p)]) else (ps, acts))"
        using "1.IH"(2) [OF True nz "1.prems"] .
      finally show ?thesis using d ne by auto
    qed
  qed
qed

text \<open>
  While the handler of \<^verbatim>\<open>SIGCHLD\<close> is the one registered at line 62, the death of one
  replicant \<open>p\<close> of a settled server whose replicants all run is repaired: the handler
  takes \<open>p\<close> off the list and reaps it with one \<^verbatim>\<open>waitpid\<close>, and the main flow forks
  one replicant and waits again, with \<^verbatim>\<open>SIGCHLD\<close> ignored.
\<close>

lemma armed_crash_is_replaced:
  assumes "pc c = Inner" and "sigchld c = Handler"
    and "int (length (server_processes c)) = number_of_active_processes c"
    and "number_of_active_processes c \<le> maximum_number_of_processes c"
    and "distinct (server_processes c)"
    and "living c = server_processes c" and "zombies c = []" and "\<not> sigchld_pending c"
    and "p \<in> set (server_processes c)"
    and "0 < q"
  shows "let c1 = deliver (Chld [p]) c;
             c2 = run [Tick f1, Tick (ForkReturns q), Tick f3] c1 in
           server_processes c1 = remove1 p (server_processes c) \<and>
           c_log c1 = c_log c @ [Print (ChildStopped p), WaitpidNohang] \<and>
           living c1 = remove1 p (server_processes c) \<and> zombies c1 = [] \<and>
           sigchld c1 = Ignore \<and>
           server_processes c2 = remove1 p (server_processes c) @ [q] \<and>
           c_log c2 = c_log c1 @ [Fork (ForkReturns q)] \<and>
           number_of_active_processes c2 = number_of_active_processes c \<and>
           int (length (server_processes c2)) = number_of_active_processes c2 \<and>
           pc c2 = Inner \<and> sigchld c2 = Ignore \<and>
           (\<forall>fs. run (map Tick fs) c2 = c2)"
proof -
  let ?ws = "server_processes c"
  have pin: "p \<in> set ?ws" by (rule assms(9))
  have dead: "filter (\<lambda>x. x = p) ?ws = [p]"
    using assms(5) pin by (rule filter_one)
  have rest: "filter (\<lambda>x. x \<noteq> p) ?ws = remove1 p ?ws"
    using assms(5) by (rule filter_others)
  have scan: "zombie_scan [p] 0 ?ws [] = (remove1 p ?ws, [Print (ChildStopped p)])"
    using zombie_scan_one [OF assms(5), of "[p]" p 0 "[]"] pin by simp
  define c1 where "c1 = deliver (Chld [p]) c"
  have c1: "c1 = c\<lparr>living := remove1 p ?ws, zombies := [], sigchld_pending := False,
                   sigchld := Ignore, server_processes := remove1 p ?ws,
                   c_log := c_log c @ [Print (ChildStopped p), WaitpidNohang]\<rparr>"
    using assms(1,2,6,7,8) scan dead rest
    by (simp add: c1_def deliver_def followed_def children_die_def handle_sigchld_def
        abnormal_child_exit_handler_def waitpid_nohang_def emit_def Let_def)
  have pos: "Suc 0 \<le> length ?ws" using pin by (cases ?ws) auto
  have rem: "length (remove1 p ?ws) = length ?ws - Suc 0" using pin by (simp add: length_remove1)
  have len1: "int (length (remove1 p ?ws)) = number_of_active_processes c - 1"
    unfolding rem using pos assms(3) by linarith
  define c2 where "c2 = run [Tick f1, Tick (ForkReturns q), Tick f3] c1"
  have c2: "c2 = c1\<lparr>server_processes := remove1 p ?ws @ [q],
                    c_log := c_log c1 @ [Fork (ForkReturns q)], pc := Inner,
                    living := remove1 p ?ws @ [q]\<rparr>"
    using assms(1,4,10) len1 unfolding c2_def c1
    by (simp add: run_def deliver_def followed_def server_loop_step_def emit_def Let_def)
  have len2: "int (length (server_processes c2)) = number_of_active_processes c2"
    using len1 unfolding c2 c1 by simp
  have pc2: "pc c2 = Inner" unfolding c2 by simp
  have "\<forall>fs. run (map Tick fs) c2 = c2" using settled_ticks [OF pc2 len2] by simp
  then show ?thesis
    using len2 pc2 unfolding Let_def c1_def [symmetric] c2_def [symmetric]
    by (simp add: c1 c2)
qed

lemma ignored_crash_is_not_seen:
  assumes "followed c" and "sigchld c = Ignore" and "\<not> sigchld_pending c"
  shows "deliver (Chld ps) c = c\<lparr>living := filter (\<lambda>p. p \<notin> set ps) (living c)\<rparr>"
proof (cases "filter (\<lambda>p. p \<in> set ps) (living c) = []")
  case True
  then have "filter (\<lambda>p. p \<notin> set ps) (living c) = living c"
    by (auto simp: filter_empty_conv filter_id_conv)
  then show ?thesis using assms True
    by (simp add: deliver_def children_die_def Let_def)
next
  case False
  then show ?thesis using assms
    by (simp add: deliver_def children_die_def Let_def)
qed

text \<open>
  C8. The claim: whenever one replicant dies, its handle is removed, it is reaped once, and
  the next pass forks one replacement. The code: the handler sets \<^verbatim>\<open>SIGCHLD\<close> to
  \<^verbatim>\<open>SIG_IGN\<close> (line 172), and the handler is registered again only at line 62, which
  the flow reaches only after the loop of line 78 has ended. In \<open>settled_at_two\<close>
  replicant 11 dies: it is removed, reaped, and replaced by 13, as the claim says, and the
  server waits at line 85 with \<^verbatim>\<open>SIGCHLD\<close> still ignored. Then replicant 12 dies: no
  handler runs, 12 stays in the list, nothing is reaped by the server and nothing is
  forked; the state of the server differs only in that 12 is no child of it any more.
\<close>

theorem second_crash_goes_unnoticed:
  "let c = run [Chld [11], Tick (ForkReturns 13), Tick (ForkReturns 13), Tick (ForkReturns 13)]
             settled_at_two in
     c_log c = c_log settled_at_two
                 @ [Print (ChildStopped 11), WaitpidNohang, Fork (ForkReturns 13)] \<and>
     server_processes c = [12, 13] \<and> number_of_active_processes c = 2 \<and>
     pc c = Inner \<and> sigchld c = Ignore \<and> living c = [12, 13] \<and>
     run [Chld [12], Tick (ForkReturns 14), Tick (ForkReturns 14), Tick (ForkReturns 14),
          Tick (ForkReturns 14)] c = c\<lparr>living := [13]\<rparr>"
  by code_simp

subsection \<open>The createServer command\<close>

text \<open>
  C1. The claim: a request with \<open>mn < 0\<close> or \<open>mx > 10\<close> is rejected and changes
  nothing. The code: line 407 prints the notice and goes on to line 410, without the
  \<^verbatim>\<open>continue\<close> of the checks before it. \<^verbatim>\<open>createServer -1 5 B\<close> prints the notice,
  forks, and registers \<open>B\<close>. The server it forked starts with the target \<open>- 1\<close> and
  stops at its first \<^verbatim>\<open>pop\<close> (line 126) on the empty list.
\<close>

theorem out_of_range_is_created:
  "createServer_request (ForkReturns 4242) (- 1) 5 ''B'' (init_manager 100)
     = Continue \<lparr>manager_pid = 100,
                 server_pids = [''Manager'' \<mapsto> Some 100, ''B'' \<mapsto> Some 4242],
                 m_log = [Print (ManagerStarted 100), Print OutOfRange,
                          Print (StartingServer ''B'' (- 1) 5), Fork (ForkReturns 4242)]\<rparr> \<and>
   createServer_request (ForkReturns 0) (- 1) 5 ''B'' (init_manager 100)
     = InServer (init_controller (- 1) 5 ''B'' (- 1)) \<and>
   pc (run [Tick ForkOSError, Tick ForkOSError] (init_controller (- 1) 5 ''B'' (- 1)))
     = Raised IndexError"
proof (intro conjI)
  show "createServer_request (ForkReturns 4242) (- 1) 5 ''B'' (init_manager 100)
     = Continue \<lparr>manager_pid = 100,
                 server_pids = [''Manager'' \<mapsto> Some 100, ''B'' \<mapsto> Some 4242],
                 m_log = [Print (ManagerStarted 100), Print OutOfRange,
                          Print (StartingServer ''B'' (- 1) 5), Fork (ForkReturns 4242)]\<rparr>"
    by (simp add: createServer_request_def create_server_def say_def init_manager_def)
  show "createServer_request (ForkReturns 0) (- 1) 5 ''B'' (init_manager 100)
     = InServer (init_controller (- 1) 5 ''B'' (- 1))"
    by (simp add: createServer_request_def create_server_def say_def init_manager_def)
  show "pc (run [Tick ForkOSError, Tick ForkOSError] (init_controller (- 1) 5 ''B'' (- 1)))
     = Raised IndexError"
    by code_simp
qed

text \<open>
  C4. A request with \<open>mx < mn\<close> makes the manager go on with the same directory and a log
  that has grown by printed lines only, so nothing was forked. The last line printed is a
  rejection: the invalid name, the duplicate name, or, for a name that is not empty and not
  in the directory, that the minimum must be smaller than the maximum.
\<close>

theorem min_above_max_is_rejected:
  assumes "mx < mn"
  shows "\<exists>msgs. createServer_request f mn mx name m
                  = Continue (m\<lparr>m_log := m_log m @ map Print msgs\<rparr>) \<and>
           msgs \<noteq> [] \<and>
           last msgs \<in> {InvalidServerName, DuplicateServerName, MinimumAboveMaximum} \<and>
           (name \<noteq> [] \<and> server_pids m name = None \<longrightarrow> last msgs = MinimumAboveMaximum)"
proof -
  consider "name = []" | "name \<noteq> []" "server_pids m name \<noteq> None"
    | "name \<noteq> []" "server_pids m name = None" "mn < 0 \<or> mx > 10"
    | "name \<noteq> []" "server_pids m name = None" "\<not> (mn < 0 \<or> mx > 10)" by blast
  then show ?thesis
  proof cases
    case 1
    then show ?thesis
      by (intro exI [of _ "[InvalidServerName]"]) (simp add: createServer_request_def say_def)
  next
    case 2
    then show ?thesis
      by (intro exI [of _ "[DuplicateServerName]"])
         (auto simp add: createServer_request_def say_def)
  next
    case 3
    then show ?thesis using assms
      by (intro exI [of _ "[OutOfRange, MinimumAboveMaximum]"])
         (auto simp add: createServer_request_def say_def)
  next
    case 4
    then show ?thesis using assms
      by (intro exI [of _ "[MinimumAboveMaximum]"])
         (auto simp add: createServer_request_def say_def)
  qed
qed

theorem min_above_max_witness:
  "(2::int) < 4 \<and>
   (\<exists>msgs. createServer_request (ForkReturns 4242) 4 2 ''C'' (init_manager 100)
             = Continue ((init_manager 100)\<lparr>m_log := m_log (init_manager 100) @ map Print msgs\<rparr>) \<and>
           msgs \<noteq> [] \<and> last msgs = MinimumAboveMaximum)"
proof -
  have h: "(2::int) < 4" by simp
  have n: "''C'' \<noteq> [] \<and> server_pids (init_manager 100) ''C'' = None"
    by (simp add: init_manager_def)
  from min_above_max_is_rejected [OF h, of "ForkReturns 4242" "''C''" "init_manager 100"] n
  show ?thesis using h by blast
qed

lemma step_keeps:
  assumes "manager_step py_int f command m = Continue m'"
    "server_pids m [] = None" "server_pids m ''Manager'' = Some (Some (manager_pid m))"
  shows "server_pids m' [] = None \<and> manager_pid m' = manager_pid m \<and>
         server_pids m' ''Manager'' = Some (Some (manager_pid m'))"
  using assms
  by (auto simp: manager_step_def createServer_command_def createServer_request_def
      create_server_def abortServer_command_def process_command_def send_signal_def say_def
      Let_def split: if_splits option.splits fork_result.splits outcome.splits)

lemma reachable_directory:
  "reachable py_int p m \<Longrightarrow> server_pids m [] = None \<and> manager_pid m = p \<and>
     server_pids m ''Manager'' = Some (Some p)"
proof (induction rule: reachable.induct)
  case start
  show ?case by (simp add: init_manager_def)
next
  case (step m f command m')
  then show ?case using step_keeps [of py_int f command m m'] by simp
qed

text \<open>
  C5. In every state the manager can be in, a request whose name is a key of the directory
  prints the duplicate notice and nothing else: no fork, the same directory. The entry
  \<open>Manager\<close> of line 369 is a key in every such state, so a request for that name is
  always a duplicate.
\<close>

theorem duplicate_name_is_rejected:
  assumes "reachable py_int p m"
  shows "(server_pids m name \<noteq> None \<longrightarrow>
            createServer_request f mn mx name m
              = Continue (m\<lparr>m_log := m_log m @ [Print DuplicateServerName]\<rparr>)) \<and>
         createServer_request f mn mx ''Manager'' m
              = Continue (m\<lparr>m_log := m_log m @ [Print DuplicateServerName]\<rparr>)"
  using reachable_directory [OF assms]
  by (auto simp: createServer_request_def say_def)

theorem duplicate_name_witness:
  "let m = \<lparr>manager_pid = 100,
            server_pids = [''Manager'' \<mapsto> Some 100, ''A'' \<mapsto> Some 4242],
            m_log = [Print (ManagerStarted 100), Print (StartingServer ''A'' 1 3),
                     Fork (ForkReturns 4242)]\<rparr> in
     reachable example_int 100 m \<and> server_pids m ''A'' \<noteq> None \<and>
     createServer_request (ForkReturns 4243) 0 5 ''A'' m
       = Continue (m\<lparr>m_log := m_log m @ [Print DuplicateServerName]\<rparr>) \<and>
     createServer_request (ForkReturns 4243) 0 5 ''Manager'' m
       = Continue (m\<lparr>m_log := m_log m @ [Print DuplicateServerName]\<rparr>)"
proof -
  define m where "m = \<lparr>manager_pid = 100,
            server_pids = [''Manager'' \<mapsto> Some 100, ''A'' \<mapsto> Some 4242],
            m_log = [Print (ManagerStarted 100), Print (StartingServer ''A'' 1 3),
                     Fork (ForkReturns 4242)]\<rparr>"
  have s: "manager_step example_int (ForkReturns 4242) ''createServer 1 3 A'' (init_manager 100)
             = Continue m"
    by (simp add: manager_step_def createServer_command_def createServer_request_def
        create_server_def say_def init_manager_def example_int_def m_def)
  have r: "reachable example_int 100 m"
    by (rule reachable.step [OF reachable.start s])
  have a: "server_pids m ''A'' \<noteq> None" by (simp add: m_def)
  show ?thesis
    unfolding Let_def m_def [symmetric]
    using r a duplicate_name_is_rejected [OF r, of "''A''" "ForkReturns 4243" 0 5] by simp
qed

text \<open>
  C10. When the fork of line 50 raises \<^verbatim>\<open>OSError\<close> or returns a negative number,
  \<^verbatim>\<open>create_server\<close> returns \<^verbatim>\<open>None\<close>, and line 417 stores it: the name is a key
  of the directory with the value \<^verbatim>\<open>None\<close>, in a process that is still the manager,
  and a later request for the same name is a duplicate.
\<close>

theorem failed_fork_registers_name:
  assumes "f = ForkOSError \<or> (\<exists>pid. f = ForkReturns pid \<and> pid < 0)"
    and "name \<noteq> []" and "server_pids m name = None" and "mn \<le> mx"
  shows "\<exists>acts m'. create_server f mn mx name mn = Returned None acts \<and>
           createServer_request f mn mx name m = Continue m' \<and>
           server_pids m' = (server_pids m)(name \<mapsto> None) \<and>
           createServer_request f' mn' mx' name m'
             = Continue (m'\<lparr>m_log := m_log m' @ [Print DuplicateServerName]\<rparr>)"
  using assms
  by (auto simp: create_server_def createServer_request_def say_def Let_def)

theorem failed_fork_witness:
  "(ForkOSError = ForkOSError \<or> (\<exists>pid. ForkOSError = ForkReturns pid \<and> pid < 0)) \<and>
   ''A'' \<noteq> [] \<and> server_pids (init_manager 100) ''A'' = None \<and> (1::int) \<le> 3 \<and>
   createServer_request ForkOSError 1 3 ''A'' (init_manager 100)
     = Continue \<lparr>manager_pid = 100,
                 server_pids = [''Manager'' \<mapsto> Some 100, ''A'' \<mapsto> None],
                 m_log = [Print (ManagerStarted 100), Print (StartingServer ''A'' 1 3),
                          Fork ForkOSError, Print ServerCreationFailed]\<rparr>"
proof -
  have h: "ForkOSError = ForkOSError \<or> (\<exists>pid. ForkOSError = ForkReturns pid \<and> pid < 0)"
    "''A'' \<noteq> []" "server_pids (init_manager 100) ''A'' = None" "(1::int) \<le> 3"
    by (simp_all add: init_manager_def)
  show ?thesis
    using h failed_fork_registers_name [OF h]
    by (simp add: createServer_request_def create_server_def say_def init_manager_def)
qed

subsection \<open>Dispatch of commands\<close>




end
